theory Spec2Isabelle
  imports Complex_Main
begin

section \<open>Data model (node.ts, graph.ts)\<close>

text \<open>
  A JavaScript value of type \<open>unknown\<close>: \<open>undefined\<close>, some defined value, or a member
  that a plain object inherits from \<open>Object.prototype\<close> (a function, or for \<open>__proto__\<close>
  the prototype itself), named by its property name.
\<close>

datatype 'v unknown = Undefined | Defined 'v | Inherited string

text \<open>
  Every record of the source (\<open>incoming\<close>, the socket descriptors, the input and output
  records) is a plain object, as an object literal, a spread or \<open>JSON.parse\<close> makes it.
  A read \<open>obj[name]\<close> finds the own property of that name, or else the member of
  \<open>Object.prototype\<close> of that name. \<open>object_prototype_names\<close> lists the members, for a
  host with Annex B of ECMAScript (browsers, Node.js). None of them is enumerable, so
  \<open>for ... in\<close> visits own properties only.
\<close>

definition object_prototype_names :: "string list" where
  "object_prototype_names =
     [''constructor'', ''__defineGetter__'', ''__defineSetter__'', ''hasOwnProperty'',
      ''__lookupGetter__'', ''__lookupSetter__'', ''isPrototypeOf'', ''propertyIsEnumerable'',
      ''toString'', ''valueOf'', ''__proto__'', ''toLocaleString'']"

definition inherited :: "string \<Rightarrow> bool" where
  "inherited name = List.member object_prototype_names name"

text \<open>
  Socket descriptors of a node type. The type descriptors of \<open>type.ts\<close> are never
  inspected by the graph code; they are the type parameter \<open>'t\<close>.
\<close>

record ('v, 't) InputSocket =
  socketLabel :: string
  socketType :: 't
  socketDefault :: "'v unknown"

record 't OutputSocket =
  outLabel :: string
  outType :: 't

text \<open>
  \<open>NodeType<Input, Output, Config>\<close>. Records of the source that are enumerated
  (\<open>for ... in\<close>) are association lists of their own properties, in enumeration order and
  with distinct keys; records that are only read by key are maps of their own properties.
  Inherited members come in where a property is read (\<open>read_incoming\<close>, \<open>read_field\<close>).
\<close>

record ('v, 'c, 't) NodeType =
  typeId :: string
  label :: string
  initialConfig :: 'c
  input :: "'c \<Rightarrow> (string \<times> ('v, 't) InputSocket) list"
  "output" :: "'c \<Rightarrow> (string \<times> 't OutputSocket) list"
  evaluate :: "(string \<rightharpoonup> 'v unknown) \<Rightarrow> 'c \<Rightarrow> (string \<rightharpoonup> 'v unknown)"

text \<open>\<open>Incoming\<close>: a reference to an output socket of an element.\<close>

record Incoming =
  elementId :: string
  socket :: string

text \<open>
  The value found at run time where the types promise an \<open>Incoming\<close>: an \<open>Incoming\<close>
  object, or a member inherited from \<open>Object.prototype\<close>. The code reads the properties
  \<open>elementId\<close> and \<open>socket\<close> of such a value; an inherited member has neither (\<open>None\<close> is
  \<open>undefined\<close>). Both kinds of value are truthy.
\<close>

datatype IncomingValue = Ref Incoming | InheritedMember string

fun read_elementId :: "IncomingValue \<Rightarrow> string option" where
  "read_elementId (Ref i) = Some (Incoming.elementId i)"
| "read_elementId (InheritedMember m) = None"

fun read_socket :: "IncomingValue \<Rightarrow> string option" where
  "read_socket (Ref i) = Some (socket i)"
| "read_socket (InheritedMember m) = None"

text \<open>
  \<open>BaseGraphElement\<close> and \<open>Positionable\<close>. The numbers \<open>x\<close>, \<open>y\<close>, \<open>width\<close> are
  carried along and never computed with in graph.ts.
\<close>

record BaseGraphElement =
  elementId :: string
  label :: "string option"

record PositionedElement = BaseGraphElement +
  x :: real
  y :: real
  width :: real

record FrameElement = BaseGraphElement +
  childrenIds :: "string list"

text \<open>The fields shared by \<open>NodeElement\<close> and \<open>GroupElement\<close>: position and wiring.\<close>

record WiredElement = PositionedElement +
  incoming :: "(string \<times> IncomingValue) list"

text \<open>
  \<open>element.incoming[name]\<close>: the own entry, or else the inherited member of that name, or
  else \<open>undefined\<close> (\<open>None\<close>).
\<close>

definition read_incoming :: "(string \<times> IncomingValue) list \<Rightarrow> string \<Rightarrow> IncomingValue option" where
  "read_incoming inc name =
     (case map_of inc name of
        Some v \<Rightarrow> Some v
      | None \<Rightarrow> if inherited name then Some (InheritedMember name) else None)"

record 'c NodeElement = WiredElement +
  typeId :: string
  config :: 'c

record 't GroupInputExport =
  exportId :: string
  exportLabel :: "string option"
  exportType :: 't

record 't GroupOutputExport = "'t GroupInputExport" +
  target :: Incoming

record 't GroupInputElement = PositionedElement +
  exports :: "'t GroupInputExport list"

record 't GroupOutputElement = PositionedElement +
  exports :: "'t GroupOutputExport list"

text \<open>
  \<open>GraphElement\<close>: the constructor is the \<open>elementType\<close> tag. A group carries its own
  fields (\<open>groupFields\<close>) and its subgraph (\<open>graph\<close>).
\<close>

datatype ('c, 't) GraphElement =
    Frame FrameElement
  | Node "'c NodeElement"
  | Group (groupFields: WiredElement) (graph: "('c, 't) GraphElement list")
  | GroupInput "'t GroupInputElement"
  | GroupOutput "'t GroupOutputElement"

text \<open>The errors thrown by graph.ts, one constructor per \<open>throw\<close>.\<close>

datatype error =
    GroupMustHaveInputAndOutput string
  | UnableToFindElement string
  | BugFailedToObtainResult

section \<open>buildEvalGraph: the evaluation order\<close>

text \<open>\<open>graph.find((e) => e.elementId == elementId)\<close>\<close>

definition find_element :: "'c NodeElement list \<Rightarrow> string \<Rightarrow> 'c NodeElement option" where
  "find_element g i = List.find (\<lambda>e. elementId e = i) g"

text \<open>
  \<open>graph.find((e) => e.elementId == top.incoming[socket].elementId)\<close>: the id sought may
  be \<open>undefined\<close>, which no \<open>elementId\<close> (a string) equals.
\<close>

definition find_dependency :: "'c NodeElement list \<Rightarrow> IncomingValue \<Rightarrow> 'c NodeElement option" where
  "find_dependency g v = (case read_elementId v of None \<Rightarrow> None | Some i \<Rightarrow> find_element g i)"

text \<open>
  The \<open>for (const socket in top.incoming)\<close> loop: every dependency that is found in the
  graph is pushed; the stack is a list whose head is the top.
\<close>

fun push_incoming ::
  "'c NodeElement list \<Rightarrow> (string \<times> IncomingValue) list \<Rightarrow> 'c NodeElement list \<Rightarrow> 'c NodeElement list"
where
  "push_incoming g [] stack = stack"
| "push_incoming g ((s, v) # rest) stack =
     (case find_dependency g v of
        None \<Rightarrow> push_incoming g rest stack
      | Some element \<Rightarrow> push_incoming g rest (element # stack))"

lemma set_push_incoming: "set (push_incoming g inc stack) \<subseteq> set g \<union> set stack"
proof (induction inc arbitrary: stack)
  case Nil
  then show ?case by simp
next
  case (Cons p rest)
  obtain s v where p: "p = (s, v)" by (cases p)
  show ?case
  proof (cases "find_dependency g v")
    case None
    with Cons.IH [of stack] p show ?thesis by simp
  next
    case (Some e)
    then have "e \<in> set g"
      by (auto simp: find_dependency_def find_element_def find_Some_iff split: option.splits)
    with Cons.IH [of "e # stack"] p Some show ?thesis by auto
  qed
qed

text \<open>
  The \<open>while ((top = stack.pop()) != null)\<close> loop. \<open>evalOrder.includes(top)\<close> compares
  object identities; every element on the stack was returned by \<open>graph.find\<close>, which
  returns the first element with the id sought, so two elements on the stack are the same
  object exactly when their records are equal.
\<close>

function visit ::
  "'c NodeElement list \<Rightarrow> 'c NodeElement list \<Rightarrow> 'c NodeElement list \<Rightarrow> 'c NodeElement list"
where
  "visit g [] evalOrder = evalOrder"
| "visit g (top' # stack) evalOrder =
     (if top' \<in> set evalOrder then visit g stack evalOrder
      else visit g (push_incoming g (incoming top') stack) (top' # evalOrder))"
  by pat_completeness auto
termination
proof (relation "measures [\<lambda>(g, stack, evalOrder). card ((set g \<union> set stack) - set evalOrder),
                           \<lambda>(g, stack, evalOrder). length stack]", goal_cases)
  case 1
  then show ?case by simp
next
  case (2 g t stack evalOrder)
  have "(set g \<union> set stack) - set evalOrder \<subseteq> (set g \<union> set (t # stack)) - set evalOrder"
    by auto
  then have "card ((set g \<union> set stack) - set evalOrder)
      \<le> card ((set g \<union> set (t # stack)) - set evalOrder)"
    by (intro card_mono) auto
  then show ?case by auto
next
  case (3 g t stack evalOrder)
  let ?new = "push_incoming g (incoming t) stack"
  have "set ?new \<subseteq> set g \<union> set stack" by (rule set_push_incoming)
  with 3 have "(set g \<union> set ?new) - set (t # evalOrder)
      \<subset> (set g \<union> set (t # stack)) - set evalOrder"
    by auto
  then have "card ((set g \<union> set ?new) - set (t # evalOrder))
      < card ((set g \<union> set (t # stack)) - set evalOrder)"
    by (intro psubset_card_mono) auto
  then show ?case by simp
qed

text \<open>The \<open>for (const elementId of targetIds)\<close> loop, with \<open>evalOrder\<close> as accumulator.\<close>

fun build_order ::
  "'c NodeElement list \<Rightarrow> string list \<Rightarrow> 'c NodeElement list \<Rightarrow> error + 'c NodeElement list"
where
  "build_order g [] evalOrder = Inr evalOrder"
| "build_order g (i # targetIds) evalOrder =
     (case find_element g i of
        None \<Rightarrow> Inl (UnableToFindElement i)
      | Some element \<Rightarrow> build_order g targetIds (visit g [element] evalOrder))"

definition buildEvalOrder :: "'c NodeElement list \<Rightarrow> string list \<Rightarrow> error + 'c NodeElement list" where
  "buildEvalOrder g targetIds = build_order g targetIds []"

section \<open>buildEvalGraph: the evaluator\<close>

text \<open>
  \<open>result[name]\<close>: the own field of the output record, or else the inherited member of
  that name, or else \<open>undefined\<close>.
\<close>

definition read_field :: "(string \<rightharpoonup> 'v unknown) \<Rightarrow> string \<Rightarrow> 'v unknown" where
  "read_field r name =
     (case r name of
        Some v \<Rightarrow> v
      | None \<Rightarrow> if inherited name then Inherited name else Undefined)"

text \<open>
  \<open>input[socket] = v\<close> on the record that starts as \<open>{}\<close>: it stores an own property,
  except for the name \<open>__proto__\<close>, where the inherited setter runs and no own property
  is made (the prototype that the setter may install is not tracked).
\<close>

definition assign :: "(string \<rightharpoonup> 'v unknown) \<Rightarrow> string \<Rightarrow> 'v unknown \<Rightarrow> (string \<rightharpoonup> 'v unknown)" where
  "assign inp name v = (if name = ''__proto__'' then inp else inp(name \<mapsto> v))"

text \<open>
  The \<open>for (const socket in inputDesc)\<close> loop, building the \<open>input\<close> record from the
  \<open>results\<close> map of the run so far. Its \<open>throw\<close> is the \<open>Inl\<close> branch. The test
  \<open>if (element.incoming[socket])\<close> also succeeds on an inherited member; then
  \<open>results.get(undefined)\<close> finds nothing, the keys of the map being strings.
\<close>

fun resolve_inputs ::
  "(string \<rightharpoonup> (string \<rightharpoonup> 'v unknown)) \<Rightarrow> (string \<times> IncomingValue) list \<Rightarrow>
   (string \<times> ('v, 't) InputSocket) list \<Rightarrow> (string \<rightharpoonup> 'v unknown) \<Rightarrow>
   error + (string \<rightharpoonup> 'v unknown)"
where
  "resolve_inputs results inc [] inp = Inr inp"
| "resolve_inputs results inc ((s, desc) # inputDesc) inp =
     (case read_incoming inc s of
        Some (Ref i) \<Rightarrow>
          (case results (Incoming.elementId i) of
             None \<Rightarrow> Inl BugFailedToObtainResult
           | Some result \<Rightarrow>
               resolve_inputs results inc inputDesc (assign inp s (read_field result (socket i))))
      | Some (InheritedMember m) \<Rightarrow> Inl BugFailedToObtainResult
      | None \<Rightarrow> resolve_inputs results inc inputDesc (assign inp s (socketDefault desc)))"

text \<open>
  The state of one evaluation run: the \<open>results\<close> map, and the calls of
  \<open>type.evaluate(input, element.config)\<close> made so far (the element and its input record),
  oldest first.
\<close>

record ('v, 'c) EvalState =
  results :: "string \<rightharpoonup> (string \<rightharpoonup> 'v unknown)"
  calls :: "('c NodeElement \<times> (string \<rightharpoonup> 'v unknown)) list"

text \<open>
  The body of \<open>for (const element of evalOrder)\<close>. The registry and the functions of a
  node type are total functions: what they might throw is not modelled, and an output
  record is always an object.
\<close>

definition eval_element ::
  "(string \<Rightarrow> ('v, 'c, 't) NodeType) \<Rightarrow> ('v, 'c) EvalState \<Rightarrow> 'c NodeElement \<Rightarrow>
   error + ('v, 'c) EvalState"
where
  "eval_element registry st element =
     (let type = registry (typeId element);
          inputDesc = input type (config element)
      in case resolve_inputs (results st) (incoming element) inputDesc Map.empty of
           Inl e \<Rightarrow> Inl e
         | Inr inp \<Rightarrow>
             Inr \<lparr>results = (results st)(elementId element \<mapsto> evaluate type inp (config element)),
                  calls = calls st @ [(element, inp)]\<rparr>)"

text \<open>
  The loop over \<open>evalOrder\<close>: the state reached, and the error that stopped the run, if
  any.
\<close>

fun eval_loop ::
  "(string \<Rightarrow> ('v, 'c, 't) NodeType) \<Rightarrow> 'c NodeElement list \<Rightarrow> ('v, 'c) EvalState \<Rightarrow>
   ('v, 'c) EvalState \<times> error option"
where
  "eval_loop registry [] st = (st, None)"
| "eval_loop registry (element # evalOrder) st =
     (case eval_element registry st element of
        Inl e \<Rightarrow> (st, Some e)
      | Inr st' \<Rightarrow> eval_loop registry evalOrder st')"

text \<open>The closure returned by \<open>buildEvalGraph\<close>, for the \<open>evalOrder\<close> it captured.\<close>

definition eval_run ::
  "'c NodeElement list \<Rightarrow> (string \<Rightarrow> ('v, 'c, 't) NodeType) \<Rightarrow> ('v, 'c) EvalState \<times> error option"
where
  "eval_run evalOrder registry = eval_loop registry evalOrder \<lparr>results = Map.empty, calls = []\<rparr>"

definition evalGraph ::
  "'c NodeElement list \<Rightarrow> (string \<Rightarrow> ('v, 'c, 't) NodeType) \<Rightarrow>
   error + (string \<rightharpoonup> (string \<rightharpoonup> 'v unknown))"
where
  "evalGraph evalOrder registry =
     (case eval_run evalOrder registry of
        (st, None) \<Rightarrow> Inr (results st)
      | (st, Some e) \<Rightarrow> Inl e)"

definition buildEvalGraph ::
  "'c NodeElement list \<Rightarrow> string list \<Rightarrow>
   error + ((string \<Rightarrow> ('v, 'c, 't) NodeType) \<Rightarrow> error + (string \<rightharpoonup> (string \<rightharpoonup> 'v unknown)))"
where
  "buildEvalGraph g targetIds =
     (case buildEvalOrder g targetIds of
        Inl e \<Rightarrow> Inl e
      | Inr evalOrder \<Rightarrow> Inr (evalGraph evalOrder))"

section \<open>flatten\<close>

text \<open>
  The redirect table \<open>Map<`${string}::${string}`, Incoming>\<close>. Its keys are the strings
  the template literal builds. \<open>redirects.set(k, undefined)\<close> leaves \<open>redirects.get(k)\<close>
  undefined, as for an absent key, so an entry is an \<open>IncomingValue option\<close>.
\<close>

type_synonym Redirects = "string \<rightharpoonup> IncomingValue"

definition redirect_key :: "string \<Rightarrow> string \<Rightarrow> string" where
  "redirect_key eid s = eid @ ''::'' @ s"

text \<open>
  \<open>`${incoming[socket].elementId}::${incoming[socket].socket}`\<close>: a template literal
  prints \<open>undefined\<close> as the text \<open>undefined\<close>.
\<close>

definition interpolate :: "string option \<Rightarrow> string" where
  "interpolate v = (case v of None \<Rightarrow> ''undefined'' | Some t \<Rightarrow> t)"

definition key_of :: "IncomingValue \<Rightarrow> string" where
  "key_of v = redirect_key (interpolate (read_elementId v)) (interpolate (read_socket v))"

text \<open>\<open>element.graph.find((e) => e.elementType == "group-input")\<close> and its sibling.\<close>

fun find_group_input :: "('c, 't) GraphElement list \<Rightarrow> 't GroupInputElement option" where
  "find_group_input [] = None"
| "find_group_input (GroupInput gi # rest) = Some gi"
| "find_group_input (e # rest) = find_group_input rest"

fun find_group_output :: "('c, 't) GraphElement list \<Rightarrow> 't GroupOutputElement option" where
  "find_group_output [] = None"
| "find_group_output (GroupOutput go # rest) = Some go"
| "find_group_output (e # rest) = find_group_output rest"

text \<open>
  \<open>groupIn.exports.forEach((e) => redirects.set(`${groupIn.elementId}::${e.id}`,
  element.incoming[e.id]))\<close> and
  \<open>groupOut.exports.forEach((e) => redirects.set(`${element.elementId}::${e.id}`, e.target))\<close>.
\<close>

definition set_input_redirects ::
  "string \<Rightarrow> (string \<times> IncomingValue) list \<Rightarrow> 't GroupInputExport list \<Rightarrow> Redirects \<Rightarrow> Redirects"
where
  "set_input_redirects groupInId inc exps redirects =
     fold (\<lambda>e r. r(redirect_key groupInId (exportId e) := read_incoming inc (exportId e))) exps redirects"

definition set_output_redirects ::
  "string \<Rightarrow> 't GroupOutputExport list \<Rightarrow> Redirects \<Rightarrow> Redirects"
where
  "set_output_redirects groupId exps redirects =
     fold (\<lambda>e r. r(redirect_key groupId (exportId e) \<mapsto> Ref (target e))) exps redirects"

text \<open>
  One round of the \<open>do ... while (changed)\<close> loop. The flag \<open>changed\<close> is shared by all
  elements of a round, as in the source.
\<close>

fun rewrite_incoming ::
  "Redirects \<Rightarrow> (string \<times> IncomingValue) list \<Rightarrow> bool \<Rightarrow> (string \<times> IncomingValue) list \<times> bool"
where
  "rewrite_incoming redirects [] changed = ([], changed)"
| "rewrite_incoming redirects ((s, v) # rest) changed =
     (case redirects (key_of v) of
        Some redirectTo \<Rightarrow>
          (case rewrite_incoming redirects rest True of
             (rest', changed') \<Rightarrow> ((s, redirectTo) # rest', changed'))
      | None \<Rightarrow>
          (case rewrite_incoming redirects rest changed of
             (rest', changed') \<Rightarrow> ((s, v) # rest', changed')))"

definition rewrite_element ::
  "Redirects \<Rightarrow> 'c NodeElement \<Rightarrow> bool \<Rightarrow> 'c NodeElement \<times> bool"
where
  "rewrite_element redirects e changed =
     (case rewrite_incoming redirects (incoming e) changed of
        (inc', changed') \<Rightarrow> (if changed' then e\<lparr>incoming := inc'\<rparr> else e, changed'))"

fun rewrite_pass ::
  "Redirects \<Rightarrow> 'c NodeElement list \<Rightarrow> bool \<Rightarrow> 'c NodeElement list \<times> bool"
where
  "rewrite_pass redirects [] changed = ([], changed)"
| "rewrite_pass redirects (e # es) changed =
     (case rewrite_element redirects e changed of
        (e', changed') \<Rightarrow>
          (case rewrite_pass redirects es changed' of
             (es', changed'') \<Rightarrow> (e' # es', changed'')))"

text \<open>
  The \<open>do ... while (changed)\<close> loop. Nothing bounds its rounds, so it is a partial
  function: \<open>None\<close> is the loop that never ends.
\<close>

partial_function (option) rewrite_loop ::
  "Redirects \<Rightarrow> 'c NodeElement list \<Rightarrow> 'c NodeElement list option"
where
  "rewrite_loop redirects result =
     (case rewrite_pass redirects result False of
        (result', changed) \<Rightarrow> if changed then rewrite_loop redirects result' else Some result')"

declare rewrite_loop.simps [code]

text \<open>
  \<open>flatten\<close>, applied to the element list \<open>graph.graph\<close> of a NodeGraph. \<open>flatten_elements\<close> is
  its \<open>for (const element of graph.graph)\<close> loop, with the local variables \<open>flattened\<close> and
  \<open>redirects\<close> as accumulators. Every call of \<open>flatten\<close> starts from a redirect table of
  its own (\<open>new Map\<close>). The result is \<open>None\<close> when the call does not return and
  \<open>Some (Inl e)\<close> when it throws.
\<close>

fun flatten :: "('c, 't) GraphElement list \<Rightarrow> (error + 'c NodeElement list) option"
and flatten_elements ::
  "('c, 't) GraphElement list \<Rightarrow> 'c NodeElement list \<Rightarrow> Redirects \<Rightarrow>
   (error + 'c NodeElement list \<times> Redirects) option"
where
  "flatten g =
     (case flatten_elements g [] Map.empty of
        None \<Rightarrow> None
      | Some (Inl e) \<Rightarrow> Some (Inl e)
      | Some (Inr (flattened, redirects)) \<Rightarrow> map_option Inr (rewrite_loop redirects flattened))"
| "flatten_elements [] flattened redirects = Some (Inr (flattened, redirects))"
| "flatten_elements (Node n # rest) flattened redirects =
     flatten_elements rest (flattened @ [n]) redirects"
| "flatten_elements (Group element sub # rest) flattened redirects =
     (case (find_group_input sub, find_group_output sub) of
        (Some groupIn, Some groupOut) \<Rightarrow>
          (let redirects' = set_input_redirects (elementId groupIn) (incoming element)
                              (GroupInputElement.exports groupIn) redirects;
               redirects'' = set_output_redirects (elementId element)
                              (GroupOutputElement.exports groupOut) redirects'
           in case flatten sub of
                None \<Rightarrow> None
              | Some (Inl e) \<Rightarrow> Some (Inl e)
              | Some (Inr inner) \<Rightarrow> flatten_elements rest (flattened @ inner) redirects'')
      | _ \<Rightarrow> Some (Inl (GroupMustHaveInputAndOutput (elementId element))))"
| "flatten_elements (Frame f # rest) flattened redirects = flatten_elements rest flattened redirects"
| "flatten_elements (GroupInput gi # rest) flattened redirects = flatten_elements rest flattened redirects"
| "flatten_elements (GroupOutput go # rest) flattened redirects = flatten_elements rest flattened redirects"

section \<open>Notions used to state the properties\<close>

subsection \<open>Order and reachability\<close>

text \<open>
  The order property of the spec, as a check that runs: the element at each position
  names only ids of elements at earlier positions, or ids that no element of the flat
  graph has. An entry that is no \<open>Incoming\<close> names no id.
\<close>

fun dependency_met :: "'c NodeElement list \<Rightarrow> 'c NodeElement list \<Rightarrow> IncomingValue \<Rightarrow> bool" where
  "dependency_met g earlier (Ref i) =
     (List.member (map elementId earlier) (Incoming.elementId i)
      \<or> \<not> List.member (map elementId g) (Incoming.elementId i))"
| "dependency_met g earlier (InheritedMember m) = True"

definition topological_order :: "'c NodeElement list \<Rightarrow> 'c NodeElement list \<Rightarrow> bool" where
  "topological_order g evalOrder =
     list_all (\<lambda>k. list_all (dependency_met g (take k evalOrder)) (map snd (incoming (evalOrder ! k))))
       [0..<length evalOrder]"

text \<open>
  \<open>depends_on g e e'\<close>: some entry of \<open>e.incoming\<close> names the id under which \<open>graph.find\<close>
  returns \<open>e'\<close>. An element is reachable from a target id when a chain of such steps
  leads to it from the element found for the id. A set of elements is closed (up to a
  set of pending ones) when it holds every element its members depend on.
\<close>

definition depends_on :: "'c NodeElement list \<Rightarrow> 'c NodeElement \<Rightarrow> 'c NodeElement \<Rightarrow> bool" where
  "depends_on g e e' = (\<exists>v \<in> snd ` set (incoming e). find_dependency g v = Some e')"

definition reachable_from :: "'c NodeElement list \<Rightarrow> string \<Rightarrow> 'c NodeElement \<Rightarrow> bool" where
  "reachable_from g t e = (\<exists>e0. find_element g t = Some e0 \<and> (depends_on g)\<^sup>*\<^sup>* e0 e)"

definition closed_under :: "'c NodeElement list \<Rightarrow> 'c NodeElement set \<Rightarrow> 'c NodeElement set \<Rightarrow> bool" where
  "closed_under g S W = (\<forall>e \<in> S. \<forall>e'. depends_on g e e' \<longrightarrow> e' \<in> S \<union> W)"

subsection \<open>Input records\<close>

text \<open>
  An invariant of a run: in the input record of a call, every declared socket without an
  entry in \<open>incoming\<close>, and whose name is not inherited from \<open>Object.prototype\<close>, holds its
  declared default.
\<close>

definition defaults_used ::
  "(string \<Rightarrow> ('v, 'c, 't) NodeType) \<Rightarrow> 'c NodeElement \<times> (string \<rightharpoonup> 'v unknown) \<Rightarrow> bool"
where
  "defaults_used registry call =
     (case call of (element, inp) \<Rightarrow>
        (let inputDesc = input (registry (typeId element)) (config element)
         in distinct (map fst inputDesc) \<longrightarrow>
            (\<forall>(s, desc) \<in> set inputDesc. map_of (incoming element) s = None \<and> \<not> inherited s
                \<longrightarrow> inp s = Some (socketDefault desc))))"

subsection \<open>Flattened nodes and redirect chains\<close>

text \<open>
  The NodeElements of a nested graph in the order in which \<open>flatten\<close> collects them (a
  group contributes the nodes of its subgraph), and the relation between a node of the
  input and its image in the output: all fields but \<open>incoming\<close> are equal, and \<open>incoming\<close>
  has the same socket keys in the same order.
\<close>

fun nodes_of :: "('c, 't) GraphElement list \<Rightarrow> 'c NodeElement list" where
  "nodes_of [] = []"
| "nodes_of (Node n # rest) = n # nodes_of rest"
| "nodes_of (Group element sub # rest) = nodes_of sub @ nodes_of rest"
| "nodes_of (e # rest) = nodes_of rest"

definition same_but_incoming :: "'c NodeElement \<Rightarrow> 'c NodeElement \<Rightarrow> bool" where
  "same_but_incoming n n' =
     (elementId n' = elementId n \<and> typeId n' = typeId n \<and> config n' = config n
      \<and> label n' = label n \<and> x n' = x n \<and> y n' = y n \<and> width n' = width n
      \<and> map fst (incoming n') = map fst (incoming n))"

text \<open>
  What one round of the \<open>do ... while\<close> loop does to a socket reference and to a node, and
  when a node is left alone by it.
\<close>

definition redirect :: "Redirects \<Rightarrow> IncomingValue \<Rightarrow> IncomingValue" where
  "redirect r v = (case r (key_of v) of Some t \<Rightarrow> t | None \<Rightarrow> v)"

definition redirect_node :: "Redirects \<Rightarrow> 'c NodeElement \<Rightarrow> 'c NodeElement" where
  "redirect_node r e = e\<lparr>incoming := map (\<lambda>(s, v). (s, redirect r v)) (incoming e)\<rparr>"

definition settled :: "Redirects \<Rightarrow> (string \<times> IncomingValue) list \<Rightarrow> bool" where
  "settled r inc = list_all (\<lambda>(s, v). r (key_of v) = None) inc"

text \<open>
  The redirect table of a single group that exposes one input and one output: the key of
  the group input's export maps to the producer reference, the key of the group's output
  to the export's target.
\<close>

definition pass_through_redirects :: "string \<Rightarrow> string \<Rightarrow> IncomingValue \<Rightarrow> IncomingValue \<Rightarrow> Redirects" where
  "pass_through_redirects kin kout p tgt = (Map.empty(kin \<mapsto> p))(kout \<mapsto> tgt)"

section \<open>Example data\<close>

text \<open>
  Two node types in the style of the \<open>MathNode\<close> of node.ts: a constant, whose config is
  its value, and a product of the sockets \<open>a\<close> and \<open>b\<close> (default 1).
\<close>

definition const_type :: "(int, int, unit) NodeType" where
  "const_type =
     \<lparr>NodeType.typeId = ''const'', NodeType.label = ''Constant'', initialConfig = 0,
      input = (\<lambda>c. []),
      output = (\<lambda>c. [(''output'', \<lparr>outLabel = ''Out'', outType = ()\<rparr>)]),
      evaluate = (\<lambda>inp c. [''output'' \<mapsto> Defined c])\<rparr>"

definition times :: "int unknown \<Rightarrow> int unknown \<Rightarrow> int unknown" where
  "times a b = (case (a, b) of (Defined m, Defined n) \<Rightarrow> Defined (m * n) | _ \<Rightarrow> Undefined)"

definition multiply_type :: "(int, int, unit) NodeType" where
  "multiply_type =
     \<lparr>NodeType.typeId = ''multiply'', NodeType.label = ''Multiply'', initialConfig = 0,
      input = (\<lambda>c. [(''a'', \<lparr>socketLabel = ''A'', socketType = (), socketDefault = Defined 1\<rparr>),
                      (''b'', \<lparr>socketLabel = ''B'', socketType = (), socketDefault = Defined 1\<rparr>)]),
      output = (\<lambda>c. [(''output'', \<lparr>outLabel = ''Out'', outType = ()\<rparr>)]),
      evaluate = (\<lambda>inp c. [''output'' \<mapsto> times (read_field inp ''a'') (read_field inp ''b'')])\<rparr>"

definition example_registry :: "string \<Rightarrow> (int, int, unit) NodeType" where
  "example_registry t = (if t = ''const'' then const_type else multiply_type)"

definition node_element :: "string \<Rightarrow> string \<Rightarrow> 'c \<Rightarrow> (string \<times> IncomingValue) list \<Rightarrow> 'c NodeElement" where
  "node_element i t c inc =
     \<lparr>elementId = i, label = None, x = 0, y = 0, width = 1, incoming = inc, typeId = t, config = c\<rparr>"

definition socket_of :: "string \<Rightarrow> string \<Rightarrow> IncomingValue" where
  "socket_of i s = Ref \<lparr>Incoming.elementId = i, socket = s\<rparr>"

text \<open>
  An acyclic flat graph of three nodes: \<open>C\<close> is a constant, \<open>B\<close> reads \<open>C\<close>, and \<open>A\<close> reads
  \<open>B\<close> (socket \<open>a\<close>) and \<open>C\<close> (socket \<open>b\<close>).
\<close>

definition node_C :: "int NodeElement" where
  "node_C = node_element ''C'' ''const'' 42 []"

definition node_B :: "int NodeElement" where
  "node_B = node_element ''B'' ''multiply'' 0 [(''a'', socket_of ''C'' ''output'')]"

definition node_A :: "int NodeElement" where
  "node_A = node_element ''A'' ''multiply'' 0
     [(''a'', socket_of ''B'' ''output''), (''b'', socket_of ''C'' ''output'')]"

definition triangle_graph :: "int NodeElement list" where
  "triangle_graph = [node_A, node_B, node_C]"

text \<open>
  A variant of \<open>triangle_graph\<close> whose top node lists \<open>C\<close> before \<open>B\<close>, and a graph whose
  node \<open>E\<close> reads a socket \<open>missing\<close> that the constant \<open>C\<close> does not output.
\<close>

definition node_D :: "int NodeElement" where
  "node_D = node_element ''D'' ''multiply'' 0
     [(''a'', socket_of ''C'' ''output''), (''b'', socket_of ''B'' ''output'')]"

definition shared_graph :: "int NodeElement list" where
  "shared_graph = [node_D, node_B, node_C]"

definition node_E :: "int NodeElement" where
  "node_E = node_element ''E'' ''multiply'' 0 [(''a'', socket_of ''C'' ''missing'')]"

definition node_F :: "int NodeElement" where
  "node_F = node_element ''F'' ''multiply'' 0
     [(''a'', socket_of ''E'' ''output''), (''b'', socket_of ''C'' ''output'')]"

definition missing_field_graph :: "int NodeElement list" where
  "missing_field_graph = [node_F, node_E, node_C]"

text \<open>
  Scenario A of the spec: constants 42 and 17 feed a product.
\<close>

definition node_42 :: "int NodeElement" where
  "node_42 = node_element ''c42'' ''const'' 42 []"

definition node_17 :: "int NodeElement" where
  "node_17 = node_element ''c17'' ''const'' 17 []"

definition node_product :: "int NodeElement" where
  "node_product = node_element ''product'' ''multiply'' 0
     [(''a'', socket_of ''c42'' ''output''), (''b'', socket_of ''c17'' ''output'')]"

lemmas example_defs =
  const_type_def multiply_type_def example_registry_def node_element_def socket_of_def
  node_C_def node_B_def node_A_def triangle_graph_def times_def
  read_incoming_def assign_def inherited_def object_prototype_names_def find_dependency_def
  key_of_def interpolate_def

text \<open>
  A node type that declares an input socket named \<open>toString\<close>, and a node \<open>T\<close> of that type
  with nothing wired. The node \<open>K\<close> reads the socket \<open>constructor\<close> of the constant \<open>C\<close>.
\<close>

definition describe_type :: "(int, int, unit) NodeType" where
  "describe_type =
     \<lparr>NodeType.typeId = ''describe'', NodeType.label = ''Describe'', initialConfig = 0,
      input = (\<lambda>c. [(''toString'', \<lparr>socketLabel = ''Text'', socketType = (), socketDefault = Defined 0\<rparr>)]),
      output = (\<lambda>c. [(''output'', \<lparr>outLabel = ''Out'', outType = ()\<rparr>)]),
      evaluate = (\<lambda>inp c. [''output'' \<mapsto> read_field inp ''toString''])\<rparr>"

definition describe_registry :: "string \<Rightarrow> (int, int, unit) NodeType" where
  "describe_registry t = (if t = ''describe'' then describe_type else example_registry t)"

definition node_T :: "int NodeElement" where
  "node_T = node_element ''T'' ''describe'' 0 []"

definition node_K :: "int NodeElement" where
  "node_K = node_element ''K'' ''multiply'' 0 [(''a'', socket_of ''C'' ''constructor'')]"

lemmas more_defs =
  node_D_def shared_graph_def node_E_def node_F_def describe_type_def describe_registry_def
  node_T_def node_K_def

text \<open>
  Groups. \<open>through_sub\<close> is the subgraph of a group that exposes the input \<open>i\<close> and the
  output \<open>o\<close>, wired straight through. \<open>scenario_graph\<close> is Scenario B of the spec: the
  producer \<open>P\<close> feeds the group \<open>G\<close>, whose output the consumer \<open>N\<close> reads.
\<close>

definition group_input_element :: "string \<Rightarrow> string list \<Rightarrow> unit GroupInputElement" where
  "group_input_element i es =
     \<lparr>elementId = i, label = None, x = 0, y = 0, width = 1,
      GroupInputElement.exports = map (\<lambda>e. \<lparr>exportId = e, exportLabel = None, exportType = ()\<rparr>) es\<rparr>"

definition group_output_element ::
  "string \<Rightarrow> (string \<times> string \<times> string) list \<Rightarrow> unit GroupOutputElement"
where
  "group_output_element i es =
     \<lparr>elementId = i, label = None, x = 0, y = 0, width = 1,
      GroupOutputElement.exports =
        map (\<lambda>(e, t, s). \<lparr>exportId = e, exportLabel = None, exportType = (),
                            target = \<lparr>Incoming.elementId = t, socket = s\<rparr>\<rparr>) es\<rparr>"

definition group_fields :: "string \<Rightarrow> (string \<times> IncomingValue) list \<Rightarrow> WiredElement" where
  "group_fields i inc = \<lparr>elementId = i, label = None, x = 0, y = 0, width = 1, incoming = inc\<rparr>"

definition through_sub :: "(int, unit) GraphElement list" where
  "through_sub = [GroupInput (group_input_element ''gin'' [''i'']),
                  GroupOutput (group_output_element ''gout'' [(''o'', ''gin'', ''i'')])]"

definition node_P :: "int NodeElement" where
  "node_P = node_element ''P'' ''const'' 42 []"

definition node_N :: "int NodeElement" where
  "node_N = node_element ''N'' ''multiply'' 0 [(''a'', socket_of ''G'' ''o'')]"

definition scenario_graph :: "(int, unit) GraphElement list" where
  "scenario_graph =
     [Node node_P, Group (group_fields ''G'' [(''i'', socket_of ''P'' ''output'')]) through_sub, Node node_N]"

definition scenario_flat :: "int NodeElement list" where
  "scenario_flat = [node_P, node_N\<lparr>incoming := [(''a'', socket_of ''P'' ''output'')]\<rparr>]"

text \<open>
  Two groups with the same pass-through subgraph, fed by \<open>P\<close> and \<open>P2\<close>; \<open>N\<close> reads the
  output of the first.
\<close>

definition node_P2 :: "int NodeElement" where
  "node_P2 = node_element ''P2'' ''const'' 17 []"

definition twin_graph :: "(int, unit) GraphElement list" where
  "twin_graph =
     [Node node_P, Node node_P2,
      Group (group_fields ''G'' [(''i'', socket_of ''P'' ''output'')]) through_sub,
      Group (group_fields ''G2'' [(''i'', socket_of ''P2'' ''output'')]) through_sub,
      Node node_N]"

text \<open>
  A group \<open>G1\<close> whose output \<open>o1\<close> is the output \<open>o2\<close> of the group \<open>G2\<close> nested in it, which
  is the output of the node \<open>P\<close> inside \<open>G2\<close>; the node \<open>M\<close> outside reads \<open>o1\<close>.
\<close>

definition inner_group :: "(int, unit) GraphElement" where
  "inner_group =
     Group (group_fields ''G2'' [])
       [GroupInput (group_input_element ''gin2'' []), Node node_P,
        GroupOutput (group_output_element ''gout2'' [(''o2'', ''P'', ''output'')])]"

definition outer_group :: "(int, unit) GraphElement" where
  "outer_group =
     Group (group_fields ''G1'' [])
       [GroupInput (group_input_element ''gin1'' []), inner_group,
        GroupOutput (group_output_element ''gout1'' [(''o1'', ''G2'', ''o2'')])]"

definition node_M :: "int NodeElement" where
  "node_M = node_element ''M'' ''multiply'' 0 [(''a'', socket_of ''G1'' ''o1'')]"

definition nested_graph :: "(int, unit) GraphElement list" where
  "nested_graph = [outer_group, Node node_M]"

text \<open>
  A group whose input export is named \<open>toString\<close> and is wired to nothing; the node \<open>Q\<close>
  inside the group reads that export.
\<close>

definition node_Q :: "int NodeElement" where
  "node_Q = node_element ''Q'' ''multiply'' 0 [(''a'', socket_of ''gin'' ''toString'')]"

definition inherited_export_graph :: "(int, unit) GraphElement list" where
  "inherited_export_graph =
     [Group (group_fields ''G'' [])
        [GroupInput (group_input_element ''gin'' [''toString'']), Node node_Q,
         GroupOutput (group_output_element ''gout'' [])]]"

text \<open>
  A group whose input is wired to its own output: the redirects form a cycle.
\<close>

definition cycle_graph :: "(int, unit) GraphElement list" where
  "cycle_graph = [Group (group_fields ''G'' [(''i'', socket_of ''G'' ''o'')]) through_sub, Node node_N]"

definition cycle_redirects :: Redirects where
  "cycle_redirects = [''gin::i'' \<mapsto> socket_of ''G'' ''o'', ''G::o'' \<mapsto> socket_of ''gin'' ''i'']"

definition cycle_states :: "int NodeElement list set" where
  "cycle_states = {[node_N\<lparr>incoming := [(''a'', socket_of ''G'' ''o'')]\<rparr>],
                   [node_N\<lparr>incoming := [(''a'', socket_of ''gin'' ''i'')]\<rparr>]}"

lemmas group_defs =
  group_input_element_def group_output_element_def group_fields_def through_sub_def node_P_def
  node_N_def scenario_graph_def scenario_flat_def node_P2_def twin_graph_def inner_group_def
  outer_group_def node_M_def nested_graph_def node_element_def socket_of_def

lemmas flatten_defs =
  rewrite_loop.simps rewrite_element_def set_input_redirects_def set_output_redirects_def
  redirect_key_def key_of_def interpolate_def read_incoming_def inherited_def
  object_prototype_names_def

section \<open>Properties of the evaluation order\<close>

lemma find_element_None_iff: "find_element g i = None \<longleftrightarrow> i \<notin> elementId ` set g"
  by (auto simp: find_element_def find_None_iff)

lemma build_order_missing:
  assumes "List.find (\<lambda>i. i \<notin> elementId ` set g) targetIds = Some m"
  shows "build_order g targetIds evalOrder = Inl (UnableToFindElement m)"
  using assms
proof (induction targetIds arbitrary: evalOrder)
  case Nil
  then show ?case by simp
next
  case (Cons i targetIds)
  show ?case
  proof (cases "find_element g i")
    case None
    then have "i \<notin> elementId ` set g" by (simp add: find_element_None_iff)
    with Cons.prems have "m = i" by simp
    with None show ?thesis by simp
  next
    case (Some element)
    then have "\<not> i \<notin> elementId ` set g"
      using find_element_None_iff [of g i] by simp
    with Cons.prems have "List.find (\<lambda>i. i \<notin> elementId ` set g) targetIds = Some m"
      by simp
    from Cons.IH [OF this] Some show ?thesis by simp
  qed
qed

lemma visit_distinct: "distinct evalOrder \<Longrightarrow> distinct (visit g stack evalOrder)"
  by (induction g stack evalOrder rule: visit.induct) auto

lemma set_push_incoming_eq:
  "set (push_incoming g inc stack) =
     set stack \<union> {e'. \<exists>v \<in> snd ` set inc. find_dependency g v = Some e'}"
proof (induction inc arbitrary: stack)
  case Nil
  then show ?case by simp
next
  case (Cons p rest)
  obtain s i where p: "p = (s, i)" by (cases p)
  show ?case
  proof (cases "find_dependency g i")
    case None
    with Cons.IH [of stack] p show ?thesis by auto
  next
    case (Some e)
    with Cons.IH [of "e # stack"] p show ?thesis by auto
  qed
qed

lemma visit_closed:
  "closed_under g (set evalOrder) (set stack) \<Longrightarrow>
   set evalOrder \<union> set stack \<subseteq> set (visit g stack evalOrder)
   \<and> closed_under g (set (visit g stack evalOrder)) {}"
proof (induction g stack evalOrder rule: visit.induct)
  case (1 g evalOrder)
  then show ?case by simp
next
  case (2 g t stack evalOrder)
  show ?case
  proof (cases "t \<in> set evalOrder")
    case True
    with "2.prems" have "closed_under g (set evalOrder) (set stack)"
      by (auto simp: closed_under_def)
    from "2.IH"(1) [OF True this] True show ?thesis by auto
  next
    case False
    let ?stack = "push_incoming g (incoming t) stack"
    have "closed_under g (set (t # evalOrder)) (set ?stack)"
      using "2.prems" unfolding closed_under_def set_push_incoming_eq depends_on_def
      by auto
    from "2.IH"(2) [OF False this] False show ?thesis
      by (auto simp: set_push_incoming_eq)
  qed
qed

lemma closed_under_reachable:
  assumes "closed_under g S {}" and "(depends_on g)\<^sup>*\<^sup>* e0 e" and "e0 \<in> S"
  shows "e \<in> S"
  using assms(2,1,3)
  by (induction rule: rtranclp_induct) (auto simp: closed_under_def)

lemma build_order_closed:
  assumes "build_order g targetIds evalOrder = Inr order"
    and "closed_under g (set evalOrder) {}"
  shows "closed_under g (set order) {} \<and> set evalOrder \<subseteq> set order
         \<and> (\<forall>t \<in> set targetIds. \<forall>e. find_element g t = Some e \<longrightarrow> e \<in> set order)"
  using assms
proof (induction targetIds arbitrary: evalOrder)
  case Nil
  then show ?case by simp
next
  case (Cons t targetIds)
  from Cons.prems(1) obtain element where el: "find_element g t = Some element"
    by (cases "find_element g t") auto
  let ?next = "visit g [element] evalOrder"
  from Cons.prems(1) el have b: "build_order g targetIds ?next = Inr order" by simp
  from Cons.prems(2) have "closed_under g (set evalOrder) (set [element])"
    by (auto simp: closed_under_def)
  from visit_closed [OF this]
  have v: "set evalOrder \<union> set [element] \<subseteq> set ?next" "closed_under g (set ?next) {}"
    by simp_all
  from Cons.IH [OF b v(2)] v(1) el show ?case by auto
qed

lemma build_order_distinct:
  "build_order g targetIds evalOrder = Inr order \<Longrightarrow> distinct evalOrder \<Longrightarrow> distinct order"
proof (induction targetIds arbitrary: evalOrder)
  case Nil
  then show ?case by simp
next
  case (Cons t targetIds)
  then show ?case
    by (cases "find_element g t") (auto simp: visit_distinct)
qed

lemma build_order_returns:
  "\<forall>t \<in> set targetIds. t \<in> elementId ` set g \<Longrightarrow> \<exists>order. build_order g targetIds evalOrder = Inr order"
proof (induction targetIds arbitrary: evalOrder)
  case Nil
  then show ?case by simp
next
  case (Cons t targetIds)
  then have "find_element g t \<noteq> None" by (simp add: find_element_None_iff)
  then obtain element where "find_element g t = Some element" by auto
  with Cons show ?case by simp
qed

text \<open>
  Scenarios A and D of the spec, as checks of the model: the product of 42 and 17 is 714,
  and no target gives the empty order and the empty result map.
\<close>

lemma scenario_A:
  "buildEvalOrder [node_42, node_17, node_product] [''product''] = Inr [node_42, node_17, node_product]
   \<and> map_sum id (\<lambda>res. map_option (\<lambda>r. read_field r ''output'') (res ''product''))
        (evalGraph [node_42, node_17, node_product] example_registry) = Inr (Some (Defined 714))"
  by (simp add: buildEvalOrder_def find_dependency_def find_element_def evalGraph_def eval_run_def eval_element_def
      read_field_def node_42_def node_17_def node_product_def example_defs)

lemma scenario_D:
  "buildEvalOrder g [] = Inr [] \<and> evalGraph [] registry = Inr Map.empty"
  by (simp add: buildEvalOrder_def evalGraph_def eval_run_def)

text \<open>
  Claim C1, at a failing input. For the acyclic graph \<open>triangle_graph\<close> (unique ids) and
  the target \<open>A\<close>, the order built is \<open>B, C, A\<close>: \<open>B\<close> stands at position 0 and names \<open>C\<close>,
  which is in the graph and stands at position 1. The order is not topological.
\<close>

theorem buildEvalGraph_order_not_topological:
  "distinct (map elementId triangle_graph)
   \<and> list_all (List.member (map elementId triangle_graph)) [''A'']
   \<and> buildEvalOrder triangle_graph [''A''] = Inr [node_B, node_C, node_A]
   \<and> \<not> topological_order triangle_graph [node_B, node_C, node_A]"
  by (simp add: buildEvalOrder_def find_dependency_def find_element_def topological_order_def
      upt_rec [of 0] example_defs)

text \<open>
  Claim C7. If some id of \<open>targetIds\<close> is the \<open>elementId\<close> of no element of the flat graph,
  \<open>buildEvalGraph\<close> throws the lookup error that names the first such id of \<open>targetIds\<close>;
  it returns no evaluator, hence no result map.
\<close>

theorem buildEvalGraph_missing_target:
  assumes "\<exists>i \<in> set targetIds. i \<notin> elementId ` set g"
  shows "\<exists>m. List.find (\<lambda>i. i \<notin> elementId ` set g) targetIds = Some m
             \<and> buildEvalGraph g targetIds = Inl (UnableToFindElement m)"
proof -
  from assms obtain m where m: "List.find (\<lambda>i. i \<notin> elementId ` set g) targetIds = Some m"
    by (cases "List.find (\<lambda>i. i \<notin> elementId ` set g) targetIds") (auto simp: find_None_iff)
  then have "buildEvalGraph g targetIds = Inl (UnableToFindElement m)"
    by (simp add: buildEvalGraph_def buildEvalOrder_def build_order_missing)
  with m show ?thesis by blast
qed

text \<open>
  Of the targets \<open>B, Z, A, Q\<close> the ids \<open>Z\<close> and \<open>Q\<close> are missing from \<open>triangle_graph\<close>; the
  error names \<open>Z\<close>.
\<close>

theorem buildEvalGraph_missing_target_witness:
  "List.find (\<lambda>i. i \<notin> elementId ` set triangle_graph) [''B'', ''Z'', ''A'', ''Q''] = Some ''Z''
   \<and> (buildEvalGraph triangle_graph [''B'', ''Z'', ''A'', ''Q'']
        :: error + ((string \<Rightarrow> (int, int, unit) NodeType) \<Rightarrow> error + (string \<rightharpoonup> (string \<rightharpoonup> int unknown))))
       = Inl (UnableToFindElement ''Z'')"
proof -
  have h: "\<exists>i \<in> set [''B'', ''Z'', ''A'', ''Q'']. i \<notin> elementId ` set triangle_graph"
    by (simp add: example_defs)
  have f: "List.find (\<lambda>i. i \<notin> elementId ` set triangle_graph) [''B'', ''Z'', ''A'', ''Q''] = Some ''Z''"
    by (simp add: example_defs)
  from buildEvalGraph_missing_target [OF h] f show ?thesis by simp
qed

section \<open>Properties of the evaluation run\<close>

lemma eval_loop_calls:
  "eval_loop registry evalOrder st = (st', err) \<Longrightarrow>
   \<exists>k \<le> length evalOrder. map fst (calls st') = map fst (calls st) @ take k evalOrder
      \<and> (err = None \<longrightarrow> k = length evalOrder)"
proof (induction evalOrder arbitrary: st)
  case Nil
  then show ?case by auto
next
  case (Cons element evalOrder)
  show ?case
  proof (cases "eval_element registry st element")
    case (Inl e)
    with Cons.prems have "st' = st" "err = Some e" by auto
    then show ?thesis by (intro exI [of _ 0]) simp
  next
    case (Inr st1)
    then have c: "map fst (calls st1) = map fst (calls st) @ [element]"
      by (auto simp: eval_element_def Let_def split: sum.splits)
    from Cons.prems Inr have "eval_loop registry evalOrder st1 = (st', err)" by simp
    from Cons.IH [OF this] obtain k where k: "k \<le> length evalOrder"
      "map fst (calls st') = map fst (calls st1) @ take k evalOrder"
      "err = None \<longrightarrow> k = length evalOrder" by blast
    with c show ?thesis by (intro exI [of _ "Suc k"]) simp
  qed
qed

lemma count_list_distinct: "distinct xs \<Longrightarrow> a \<in> set xs \<Longrightarrow> count_list xs a = 1"
  by (induction xs) (auto simp: count_list_0_iff)

lemma count_list_take: "count_list (take k xs) a \<le> count_list xs a"
proof -
  have "count_list (take k xs @ drop k xs) a = count_list (take k xs) a + count_list (drop k xs) a"
    by (rule count_list_append)
  then show ?thesis by simp
qed

text \<open>
  Claim C2, at a failing input. With the registry \<open>example_registry\<close>, whose node types
  are total, the evaluator built for \<open>triangle_graph\<close> and the target \<open>A\<close> throws the
  invariant-violation error: it evaluates \<open>B\<close> first, whose declared socket \<open>a\<close> is wired to
  \<open>C\<close>, a node of the flat graph without an entry in the results map yet.
\<close>

theorem evaluator_reaches_bug_branch:
  "buildEvalGraph triangle_graph [''A''] = Inr (evalGraph [node_B, node_C, node_A])
   \<and> evalGraph [node_B, node_C, node_A] example_registry = Inl BugFailedToObtainResult"
  by (simp add: buildEvalGraph_def buildEvalOrder_def find_dependency_def find_element_def evalGraph_def eval_run_def
      eval_element_def example_defs)

text \<open>
  What the \<open>includes\<close> check gives. If all target ids occur in the flat graph and an
  element is reachable from two distinct targets, the order is built and holds the element
  exactly once; in every run \<open>evaluate\<close> is called at most once for it, and exactly once
  when the run returns a result map.
\<close>

lemma shared_element_once:
  assumes "\<forall>t \<in> set targetIds. t \<in> elementId ` set g"
    and "t1 \<in> set targetIds" and "t2 \<in> set targetIds" and "t1 \<noteq> t2"
    and "reachable_from g t1 e" and "reachable_from g t2 e"
  shows "\<exists>order. buildEvalOrder g targetIds = Inr order \<and> count_list order e = 1
           \<and> (\<forall>registry :: string \<Rightarrow> ('v, 'c, 't) NodeType.
                 count_list (map fst (calls (fst (eval_run order registry)))) e \<le> 1
                 \<and> (snd (eval_run order registry) = None
                      \<longrightarrow> count_list (map fst (calls (fst (eval_run order registry)))) e = 1))"
proof -
  from build_order_returns [OF assms(1)] obtain order where
    order: "build_order g targetIds [] = Inr order" by blast
  have closed0: "closed_under g (set []) {}" by (simp add: closed_under_def)
  from build_order_closed [OF order closed0]
  have closed: "closed_under g (set order) {}"
    and targets: "\<forall>t \<in> set targetIds. \<forall>e. find_element g t = Some e \<longrightarrow> e \<in> set order"
    by simp_all
  from assms(5) obtain e0 where e0: "find_element g t1 = Some e0" "(depends_on g)\<^sup>*\<^sup>* e0 e"
    by (auto simp: reachable_from_def)
  from targets assms(2) e0(1) have "e0 \<in> set order" by blast
  from closed_under_reachable [OF closed e0(2) this] have mem: "e \<in> set order" .
  from build_order_distinct [OF order] have "distinct order" by simp
  then have one: "count_list order e = 1" using mem by (rule count_list_distinct)
  have "count_list (map fst (calls (fst (eval_run order registry)))) e \<le> 1
        \<and> (snd (eval_run order registry) = None
              \<longrightarrow> count_list (map fst (calls (fst (eval_run order registry)))) e = 1)"
    for registry :: "string \<Rightarrow> ('v, 'c, 't) NodeType"
  proof -
    obtain st' err where run: "eval_run order registry = (st', err)"
      by (cases "eval_run order registry")
    then have "eval_loop registry order \<lparr>results = Map.empty, calls = []\<rparr> = (st', err)"
      by (simp add: eval_run_def)
    from eval_loop_calls [OF this] obtain k where
      k: "map fst (calls st') = take k order" "err = None \<longrightarrow> k = length order"
      by auto
    from k(1) one count_list_take [of k order e]
    have "count_list (map fst (calls st')) e \<le> 1" by simp
    moreover from k one have "err = None \<longrightarrow> count_list (map fst (calls st')) e = 1"
      by auto
    ultimately show ?thesis using run by simp
  qed
  with order one show ?thesis by (auto simp: buildEvalOrder_def)
qed

text \<open>
  In \<open>shared_graph\<close> the constant \<open>C\<close> is reachable from the targets \<open>D\<close> and \<open>B\<close>; the order
  is \<open>C, B, D\<close>, the run returns, and \<open>evaluate\<close> is called once for \<open>C\<close>.
\<close>

lemma shared_element_once_example:
  "reachable_from shared_graph ''D'' node_C \<and> reachable_from shared_graph ''B'' node_C
   \<and> buildEvalOrder shared_graph [''D'', ''B''] = Inr [node_C, node_B, node_D]
   \<and> count_list [node_C, node_B, node_D] node_C = 1
   \<and> snd (eval_run [node_C, node_B, node_D] example_registry) = None
   \<and> count_list (map fst (calls (fst (eval_run [node_C, node_B, node_D] example_registry)))) node_C = 1"
proof -
  have r1: "reachable_from shared_graph ''D'' node_C"
    unfolding reachable_from_def
    by (rule exI [of _ node_D])
       (auto simp: depends_on_def find_dependency_def find_element_def example_defs more_defs intro!: r_into_rtranclp)
  have r2: "reachable_from shared_graph ''B'' node_C"
    unfolding reachable_from_def
    by (rule exI [of _ node_B])
       (auto simp: depends_on_def find_dependency_def find_element_def example_defs more_defs intro!: r_into_rtranclp)
  have ids: "\<forall>t \<in> set [''D'', ''B'']. t \<in> elementId ` set shared_graph"
    by (simp add: example_defs more_defs)
  have order: "buildEvalOrder shared_graph [''D'', ''B''] = Inr [node_C, node_B, node_D]"
    by (simp add: buildEvalOrder_def find_dependency_def find_element_def example_defs more_defs)
  have fin: "snd (eval_run [node_C, node_B, node_D] example_registry) = None"
    by (simp add: eval_run_def eval_element_def example_defs more_defs)
  have "\<exists>order. buildEvalOrder shared_graph [''D'', ''B''] = Inr order \<and> count_list order node_C = 1
           \<and> (\<forall>registry :: string \<Rightarrow> (int, int, unit) NodeType.
                 count_list (map fst (calls (fst (eval_run order registry)))) node_C \<le> 1
                 \<and> (snd (eval_run order registry) = None
                      \<longrightarrow> count_list (map fst (calls (fst (eval_run order registry)))) node_C = 1))"
    by (rule shared_element_once
          [of "[''D'', ''B'']" shared_graph "''D''" "''B''" node_C, OF ids _ _ _ r1 r2]) simp_all
  with order fin r1 r2 show ?thesis by auto
qed

text \<open>
  Claim C5, at a failing input. In \<open>triangle_graph\<close> (unique ids, acyclic) with the targets
  \<open>B\<close> and \<open>A\<close>, both in the graph, the node \<open>C\<close> is reachable from both targets. The order
  built is \<open>A, C, B\<close>, and the run with \<open>example_registry\<close> stops with the invariant-violation
  error at \<open>A\<close>, whose socket \<open>a\<close> is wired to \<open>B\<close>: \<open>evaluate\<close> is called for no element, so
  not once for \<open>C\<close>.
\<close>

theorem shared_element_never_evaluated:
  "reachable_from triangle_graph ''B'' node_C \<and> reachable_from triangle_graph ''A'' node_C
   \<and> buildEvalOrder triangle_graph [''B'', ''A''] = Inr [node_A, node_C, node_B]
   \<and> snd (eval_run [node_A, node_C, node_B] example_registry) = Some BugFailedToObtainResult
   \<and> count_list (map fst (calls (fst (eval_run [node_A, node_C, node_B] example_registry)))) node_C = 0"
proof -
  have r1: "reachable_from triangle_graph ''B'' node_C"
    unfolding reachable_from_def
    by (rule exI [of _ node_B])
       (auto simp: depends_on_def find_dependency_def find_element_def example_defs intro!: r_into_rtranclp)
  have r2: "reachable_from triangle_graph ''A'' node_C"
    unfolding reachable_from_def
    by (rule exI [of _ node_A])
       (auto simp: depends_on_def find_dependency_def find_element_def example_defs intro!: r_into_rtranclp)
  have order: "buildEvalOrder triangle_graph [''B'', ''A''] = Inr [node_A, node_C, node_B]"
    by (simp add: buildEvalOrder_def find_dependency_def find_element_def example_defs)
  have "eval_run [node_A, node_C, node_B] example_registry
          = (\<lparr>results = Map.empty, calls = []\<rparr>, Some BugFailedToObtainResult)"
    by (simp add: eval_run_def eval_element_def example_defs)
  with r1 r2 order show ?thesis by simp
qed

subsection \<open>The input record of a call\<close>

lemma inherited_proto: "inherited ''__proto__''"
  by (simp add: inherited_def object_prototype_names_def)

lemma read_incoming_own: "map_of inc s = Some v \<Longrightarrow> read_incoming inc s = Some v"
  by (simp add: read_incoming_def)

lemma read_incoming_none: "map_of inc s = None \<Longrightarrow> \<not> inherited s \<Longrightarrow> read_incoming inc s = None"
  by (simp add: read_incoming_def)

lemma read_incoming_inherited:
  "map_of inc s = None \<Longrightarrow> inherited s \<Longrightarrow> read_incoming inc s = Some (InheritedMember s)"
  by (simp add: read_incoming_def)

lemma resolve_inputs_other:
  "resolve_inputs res inc inputDesc inp = Inr inp' \<Longrightarrow> s \<notin> fst ` set inputDesc \<Longrightarrow> inp' s = inp s"
proof (induction inputDesc arbitrary: inp)
  case Nil
  then show ?case by simp
next
  case (Cons p inputDesc)
  obtain s' desc where p: "p = (s', desc)" by (cases p)
  with Cons.prems(2) have ne: "s' \<noteq> s" and notin: "s \<notin> fst ` set inputDesc" by auto
  from Cons.prems(1) p obtain inp1 where
    step: "resolve_inputs res inc inputDesc inp1 = Inr inp'" and inp1: "inp1 s = inp s"
    using ne by (auto simp: assign_def split: option.splits IncomingValue.splits)
  from Cons.IH [OF step notin] inp1 show ?case by simp
qed

lemma resolve_inputs_step:
  "resolve_inputs res inc ((s, desc) # inputDesc) inp = Inr inp' \<Longrightarrow>
   \<exists>inp1. resolve_inputs res inc inputDesc inp1 = Inr inp'"
  by (auto split: option.splits IncomingValue.splits)

text \<open>
  A declared socket with no own entry in \<open>incoming\<close> and no inherited name gets its
  default; a socket with an own \<open>Incoming\<close> entry gets what \<open>result[name]\<close> reads.
\<close>

lemma resolve_inputs_default:
  "resolve_inputs res inc inputDesc inp = Inr inp' \<Longrightarrow> distinct (map fst inputDesc) \<Longrightarrow>
   (s, desc) \<in> set inputDesc \<Longrightarrow> map_of inc s = None \<Longrightarrow> \<not> inherited s \<Longrightarrow>
   inp' s = Some (socketDefault desc)"
proof (induction inputDesc arbitrary: inp)
  case Nil
  then show ?case by simp
next
  case (Cons p inputDesc)
  obtain s' desc' where p: "p = (s', desc')" by (cases p)
  from Cons.prems(5) inherited_proto have np: "s \<noteq> ''__proto__''" by auto
  show ?case
  proof (cases "(s, desc) = p")
    case True
    with p have eq: "s' = s" "desc' = desc" by simp_all
    from Cons.prems(2) p eq have notin: "s \<notin> fst ` set inputDesc" by simp
    from Cons.prems(1) p eq read_incoming_none [OF Cons.prems(4,5)]
    have "resolve_inputs res inc inputDesc (assign inp s (socketDefault desc)) = Inr inp'" by simp
    from resolve_inputs_other [OF this notin] np show ?thesis by (simp add: assign_def)
  next
    case False
    with Cons.prems(3) have mem: "(s, desc) \<in> set inputDesc" by simp
    from Cons.prems(2) have d: "distinct (map fst inputDesc)" by simp
    from Cons.prems(1) p resolve_inputs_step obtain inp1 where
      step: "resolve_inputs res inc inputDesc inp1 = Inr inp'" by blast
    from Cons.IH [OF step d mem Cons.prems(4,5)] show ?thesis .
  qed
qed

lemma resolve_inputs_wired:
  "resolve_inputs res inc inputDesc inp = Inr inp' \<Longrightarrow> distinct (map fst inputDesc) \<Longrightarrow>
   (s, desc) \<in> set inputDesc \<Longrightarrow> s \<noteq> ''__proto__'' \<Longrightarrow> map_of inc s = Some (Ref i) \<Longrightarrow>
   res (Incoming.elementId i) = Some out \<Longrightarrow> inp' s = Some (read_field out (socket i))"
proof (induction inputDesc arbitrary: inp)
  case Nil
  then show ?case by simp
next
  case (Cons p inputDesc)
  obtain s' desc' where p: "p = (s', desc')" by (cases p)
  show ?case
  proof (cases "(s, desc) = p")
    case True
    with p have eq: "s' = s" "desc' = desc" by simp_all
    from Cons.prems(2) p eq have notin: "s \<notin> fst ` set inputDesc" by simp
    from Cons.prems(1,6) p eq read_incoming_own [OF Cons.prems(5)]
    have "resolve_inputs res inc inputDesc (assign inp s (read_field out (socket i))) = Inr inp'"
      by simp
    from resolve_inputs_other [OF this notin] Cons.prems(4) show ?thesis by (simp add: assign_def)
  next
    case False
    with Cons.prems(3) have mem: "(s, desc) \<in> set inputDesc" by simp
    from Cons.prems(2) have d: "distinct (map fst inputDesc)" by simp
    from Cons.prems(1) p resolve_inputs_step obtain inp1 where
      step: "resolve_inputs res inc inputDesc inp1 = Inr inp'" by blast
    from Cons.IH [OF step d mem Cons.prems(4,5,6)] show ?thesis .
  qed
qed

lemma eval_element_defaults:
  assumes "eval_element registry st element = Inr st'"
    and "\<forall>c \<in> set (calls st). defaults_used registry c"
  shows "\<forall>c \<in> set (calls st'). defaults_used registry c"
proof -
  let ?desc = "input (registry (typeId element)) (config element)"
  from assms(1) obtain inp where
    r: "resolve_inputs (results st) (incoming element) ?desc Map.empty = Inr inp"
    and c: "calls st' = calls st @ [(element, inp)]"
    by (auto simp: eval_element_def Let_def split: sum.splits)
  have "defaults_used registry (element, inp)"
    using resolve_inputs_default [OF r] by (auto simp: defaults_used_def Let_def)
  with assms(2) c show ?thesis by auto
qed

lemma eval_loop_defaults:
  "eval_loop registry evalOrder st = (st', err) \<Longrightarrow>
   \<forall>c \<in> set (calls st). defaults_used registry c \<Longrightarrow>
   \<forall>c \<in> set (calls st'). defaults_used registry c"
proof (induction evalOrder arbitrary: st)
  case Nil
  then show ?case by simp
next
  case (Cons element evalOrder)
  show ?case
  proof (cases "eval_element registry st element")
    case (Inl e)
    with Cons.prems show ?thesis by simp
  next
    case (Inr st1)
    from eval_element_defaults [OF Inr Cons.prems(2)] Cons.IH [of st1] Cons.prems(1) Inr
    show ?thesis by simp
  qed
qed

text \<open>
  The ordinary case of the default: in every call \<open>type.evaluate(input, element.config)\<close> of
  a run, a declared socket with no entry in \<open>element.incoming\<close>, whose name is not inherited
  from \<open>Object.prototype\<close>, holds the default of its descriptor.
\<close>

lemma unwired_socket_gets_default:
  assumes "(element, inp) \<in> set (calls (fst (eval_run evalOrder registry)))"
    and "(s, desc) \<in> set (input (registry (typeId element)) (config element))"
    and "distinct (map fst (input (registry (typeId element)) (config element)))"
    and "map_of (incoming element) s = None" and "\<not> inherited s"
  shows "inp s = Some (socketDefault desc)"
proof -
  obtain st' err where run: "eval_loop registry evalOrder \<lparr>results = Map.empty, calls = []\<rparr> = (st', err)"
    by (cases "eval_loop registry evalOrder \<lparr>results = Map.empty, calls = []\<rparr>")
  from eval_loop_defaults [OF run] have "\<forall>c \<in> set (calls st'). defaults_used registry c" by simp
  with assms(1) run have "defaults_used registry (element, inp)"
    by (simp add: eval_run_def)
  with assms(2-5) show ?thesis by (auto simp: defaults_used_def Let_def)
qed

text \<open>
  Scenario E of the spec: \<open>B\<close> has socket \<open>a\<close> wired to the constant 42 and socket \<open>b\<close>
  unwired; the run returns and the input record of \<open>B\<close> holds the default 1 at \<open>b\<close>.
\<close>

lemma scenario_E:
  "eval_run [node_C, node_B] example_registry
     = (\<lparr>results = [''C'' \<mapsto> [''output'' \<mapsto> Defined 42], ''B'' \<mapsto> [''output'' \<mapsto> Defined 42]],
         calls = [(node_C, Map.empty), (node_B, [''a'' \<mapsto> Defined 42, ''b'' \<mapsto> Defined 1])]\<rparr>, None)"
  by (simp add: eval_run_def eval_element_def read_field_def example_defs)

text \<open>
  Claim C8, at a failing input. The node type of \<open>T\<close> declares the input socket \<open>toString\<close>
  with default 0, and \<open>T.incoming\<close> is empty. The test \<open>element.incoming[socket]\<close> finds the
  function that every object inherits under that name, so the socket is taken as wired,
  \<open>results.get(undefined)\<close> finds nothing and the evaluator throws the invariant-violation
  error; the default is never assigned and \<open>evaluate\<close> is never called.
\<close>

theorem inherited_socket_name_skips_default:
  "buildEvalOrder [node_T] [''T''] = Inr [node_T]
   \<and> input (describe_registry (typeId node_T)) (config node_T)
       = [(''toString'', \<lparr>socketLabel = ''Text'', socketType = (), socketDefault = Defined 0\<rparr>)]
   \<and> map_of (incoming node_T) ''toString'' = None
   \<and> eval_run [node_T] describe_registry
       = (\<lparr>results = Map.empty, calls = []\<rparr>, Some BugFailedToObtainResult)
   \<and> evalGraph [node_T] describe_registry = Inl BugFailedToObtainResult"
  by (simp add: buildEvalOrder_def find_dependency_def find_element_def evalGraph_def eval_run_def
      eval_element_def example_defs more_defs)

text \<open>
  What \<open>result[name]\<close> reads from the output record \<open>{output: 42}\<close> of the constant \<open>C\<close>, once
  it is in the results map: \<open>undefined\<close> for the name \<open>missing\<close>, whatever the default of
  the socket, and the inherited member for the name \<open>constructor\<close>.
\<close>

lemma missing_output_field_reads_undefined:
  "calls (fst (eval_run [node_C, node_E] example_registry))
     = [(node_C, Map.empty), (node_E, [''a'' \<mapsto> Undefined, ''b'' \<mapsto> Defined 1])]
   \<and> calls (fst (eval_run [node_C, node_K] example_registry))
     = [(node_C, Map.empty), (node_K, [''a'' \<mapsto> Inherited ''constructor'', ''b'' \<mapsto> Defined 1])]"
  by (simp add: eval_run_def eval_element_def read_field_def example_defs more_defs)

text \<open>
  Claim C10, at a failing input. In \<open>missing_field_graph\<close> (unique ids, acyclic) the declared
  socket \<open>a\<close> of \<open>E\<close> is wired to the socket \<open>missing\<close> of the constant \<open>C\<close>, whose output
  record has the field \<open>output\<close> only. For the target \<open>F\<close> the order is \<open>E, C, F\<close>: the
  producer \<open>C\<close> is in the order, yet the evaluator processes \<open>E\<close> before it and raises the
  invariant-violation error instead of assigning \<open>undefined\<close>.
\<close>

theorem missing_output_field_raises_before_producer:
  "buildEvalOrder missing_field_graph [''F''] = Inr [node_E, node_C, node_F]
   \<and> map_of (incoming node_E) ''a'' = Some (socket_of ''C'' ''missing'')
   \<and> ''a'' \<in> fst ` set (input (example_registry (typeId node_E)) (config node_E))
   \<and> evaluate (example_registry (typeId node_C)) Map.empty (config node_C) ''missing'' = None
   \<and> evalGraph [node_E, node_C, node_F] example_registry = Inl BugFailedToObtainResult"
  by (simp add: buildEvalOrder_def find_dependency_def find_element_def evalGraph_def eval_run_def
      eval_element_def missing_field_graph_def example_defs more_defs)

section \<open>Properties of flatten\<close>

subsection \<open>The rewriting loop\<close>

text \<open>
  A round maps every node with \<open>redirect_node\<close> and sets \<open>changed\<close> exactly when some
  reference has a redirect; the loop returns the first list of nodes it finds settled.
\<close>

lemma rewrite_incoming_eq:
  "rewrite_incoming r inc c = (map (\<lambda>(s, i). (s, redirect r i)) inc, c \<or> \<not> settled r inc)"
  by (induction inc arbitrary: c) (auto simp: redirect_def settled_def split: option.splits)

lemma settled_map: "settled r inc \<Longrightarrow> map (\<lambda>(s, i). (s, redirect r i)) inc = inc"
  by (induction inc) (auto simp: redirect_def settled_def)

lemma redirect_node_settled: "settled r (incoming e) \<Longrightarrow> redirect_node r e = e"
  by (simp add: redirect_node_def settled_map)

lemma rewrite_element_eq:
  "rewrite_element r e c = (redirect_node r e, c \<or> \<not> settled r (incoming e))"
  by (auto simp: rewrite_element_def rewrite_incoming_eq redirect_node_def settled_map)

lemma rewrite_pass_eq:
  "rewrite_pass r es c = (map (redirect_node r) es, c \<or> \<not> list_all (\<lambda>e. settled r (incoming e)) es)"
  by (induction es arbitrary: c) (auto simp: rewrite_element_eq)

lemma map_redirect_node_settled:
  "list_all (\<lambda>e. settled r (incoming e)) es \<Longrightarrow> map (redirect_node r) es = es"
  by (induction es) (auto simp: redirect_node_settled)

lemma rewrite_loop_settled:
  "list_all (\<lambda>e. settled r (incoming e)) es \<Longrightarrow> rewrite_loop r es = Some es"
  by (subst rewrite_loop.simps) (simp add: rewrite_pass_eq map_redirect_node_settled)

lemma rewrite_loop_step: "rewrite_loop r es = rewrite_loop r (map (redirect_node r) es)"
proof (cases "list_all (\<lambda>e. settled r (incoming e)) es")
  case True
  then show ?thesis by (simp add: map_redirect_node_settled)
next
  case False
  then show ?thesis by (subst rewrite_loop.simps) (simp add: rewrite_pass_eq)
qed

lemma rewrite_loop_rounds:
  "list_all (\<lambda>e. settled r (incoming e)) ((map (redirect_node r) ^^ k) es) \<Longrightarrow>
   rewrite_loop r es = Some ((map (redirect_node r) ^^ k) es)"
proof (induction k arbitrary: es)
  case 0
  then show ?case by (simp add: rewrite_loop_settled)
next
  case (Suc k)
  from Suc.prems have "list_all (\<lambda>e. settled r (incoming e))
      ((map (redirect_node r) ^^ k) (map (redirect_node r) es))"
    by (simp add: funpow_swap1)
  from Suc.IH [OF this] show ?case
    by (subst rewrite_loop_step) (simp add: funpow_swap1)
qed

lemma rewrite_loop_Some:
  assumes "rewrite_loop r es = Some out"
  shows "\<exists>k. out = (map (redirect_node r) ^^ k) es"
proof -
  have step: "\<exists>k. out = (map (redirect_node r) ^^ k) es"
    if IH: "\<And>r es out. loop r es = Some out \<Longrightarrow> \<exists>k. out = (map (redirect_node r) ^^ k) es"
      and body: "(case rewrite_pass r es False of
                    (result', changed) \<Rightarrow> if changed then loop r result' else Some result') = Some out"
    for loop :: "Redirects \<Rightarrow> 'a NodeElement list \<Rightarrow> 'a NodeElement list option"
      and r es out
  proof (cases "list_all (\<lambda>e. settled r (incoming e)) es")
    case True
    with body have "out = es" by (simp add: rewrite_pass_eq map_redirect_node_settled)
    then show ?thesis by (intro exI [of _ 0]) simp
  next
    case False
    with body have "loop r (map (redirect_node r) es) = Some out" by (simp add: rewrite_pass_eq)
    from IH [OF this] obtain k where "out = (map (redirect_node r) ^^ k) (map (redirect_node r) es)"
      by blast
    then show ?thesis by (intro exI [of _ "Suc k"]) (simp add: funpow_swap1)
  qed
  show ?thesis
    by (rule rewrite_loop.raw_induct
          [where P = "\<lambda>r es out. \<exists>k. out = (map (redirect_node r) ^^ k) es", OF step assms])
qed

text \<open>
  When the loop returns, no reference of its result has a redirect in the table.
\<close>

lemma rewrite_loop_settles:
  assumes "rewrite_loop r es = Some out"
  shows "list_all (\<lambda>e. settled r (incoming e)) out"
proof -
  have step: "list_all (\<lambda>e. settled r (incoming e)) out"
    if IH: "\<And>r es out. loop r es = Some out \<Longrightarrow> list_all (\<lambda>e. settled r (incoming e)) out"
      and body: "(case rewrite_pass r es False of
                    (result', changed) \<Rightarrow> if changed then loop r result' else Some result') = Some out"
    for loop :: "Redirects \<Rightarrow> 'a NodeElement list \<Rightarrow> 'a NodeElement list option"
      and r es out
  proof (cases "list_all (\<lambda>e. settled r (incoming e)) es")
    case True
    with body have "out = es" by (simp add: rewrite_pass_eq map_redirect_node_settled)
    with True show ?thesis by simp
  next
    case False
    with body have "loop r (map (redirect_node r) es) = Some out" by (simp add: rewrite_pass_eq)
    then show ?thesis by (rule IH)
  qed
  show ?thesis
    by (rule rewrite_loop.raw_induct
          [where P = "\<lambda>r es out. list_all (\<lambda>e. settled r (incoming e)) out", OF step assms])
qed

text \<open>
  The loop does not return on a cycle of redirects: \<open>flatten cycle_graph\<close> is \<open>None\<close>.
\<close>

lemma rewrite_loop_cycle:
  assumes "es \<in> cycle_states"
  shows "rewrite_loop cycle_redirects es = None"
proof (rule ccontr)
  assume "rewrite_loop cycle_redirects es \<noteq> None"
  then obtain out where some: "rewrite_loop cycle_redirects es = Some out" by auto
  have step: "\<not> (r = cycle_redirects \<and> es \<in> cycle_states)"
    if IH: "\<And>r es out. loop r es = Some out \<Longrightarrow> \<not> (r = cycle_redirects \<and> es \<in> cycle_states)"
      and body: "(case rewrite_pass r es False of
                    (result', changed) \<Rightarrow> if changed then loop r result' else Some result') = Some out"
    for loop :: "Redirects \<Rightarrow> int NodeElement list \<Rightarrow> int NodeElement list option"
      and r es out
  proof
    assume a: "r = cycle_redirects \<and> es \<in> cycle_states"
    then obtain es' where "rewrite_pass r es False = (es', True)" "es' \<in> cycle_states"
      by (auto simp: cycle_states_def rewrite_element_def cycle_redirects_def redirect_key_def
          socket_of_def key_of_def interpolate_def)
    with body a have "loop cycle_redirects es' = Some out" "es' \<in> cycle_states" by simp_all
    with IH show False by blast
  qed
  have "\<not> (cycle_redirects = cycle_redirects \<and> es \<in> cycle_states)"
    by (rule rewrite_loop.raw_induct
          [where P = "\<lambda>r es out. \<not> (r = cycle_redirects \<and> es \<in> cycle_states)", OF step some])
  with assms show False by simp
qed

lemma flatten_cycle_never_returns: "flatten cycle_graph = None"
proof -
  have "flatten_elements cycle_graph [] Map.empty = Some (Inr ([node_N], cycle_redirects))"
    by (simp add: cycle_graph_def cycle_redirects_def through_sub_def group_fields_def
        group_input_element_def group_output_element_def set_input_redirects_def
        set_output_redirects_def redirect_key_def rewrite_loop.simps fun_upd_twist
        read_incoming_def socket_of_def)
  moreover have "[node_N] \<in> cycle_states"
    by (simp add: cycle_states_def node_N_def node_element_def)
  ultimately show ?thesis by (simp add: rewrite_loop_cycle)
qed

subsection \<open>Graphs without groups\<close>

lemma flatten_elements_no_group:
  "list_all (\<lambda>e. \<not> is_Group e) g \<Longrightarrow> flatten_elements g acc r = Some (Inr (acc @ nodes_of g, r))"
proof (induction g arbitrary: acc)
  case Nil
  then show ?case by simp
next
  case (Cons e g)
  then show ?case by (cases e) simp_all
qed

lemma settled_empty: "list_all (\<lambda>e. settled Map.empty (incoming e)) es"
  by (simp add: settled_def list_all_iff case_prod_unfold)

lemma flatten_no_group:
  "list_all (\<lambda>e. \<not> is_Group e) g \<Longrightarrow> flatten g = Some (Inr (nodes_of g))"
  by (simp add: flatten_elements_no_group rewrite_loop_settled settled_empty)

lemma nodes_of_map_Node: "nodes_of (map Node ns) = ns"
  by (induction ns) simp_all

lemma nodes_of_append: "nodes_of (g @ h) = nodes_of g @ nodes_of h"
proof (induction g)
  case Nil
  then show ?case by simp
next
  case (Cons e g)
  then show ?case by (cases e) simp_all
qed

lemma Node_in_nodes_of: "Node n \<in> set g \<Longrightarrow> n \<in> set (nodes_of g)"
proof (induction g)
  case Nil
  then show ?case by simp
next
  case (Cons e g)
  then show ?case by (cases e) auto
qed

lemma flatten_elements_append_no_group:
  "list_all (\<lambda>e. \<not> is_Group e) g \<Longrightarrow>
   flatten_elements (g @ h) acc r = flatten_elements h (acc @ nodes_of g) r"
proof (induction g arbitrary: acc)
  case Nil
  then show ?case by simp
next
  case (Cons e g)
  then show ?case by (cases e) simp_all
qed

lemma flatten_scenario_graph: "flatten scenario_graph = Some (Inr scenario_flat)"
  by (simp add: flatten_defs group_defs)

text \<open>
  Claim C6. Flattening a graph whose elements are all NodeElements returns these nodes
  unchanged; in particular, flattening the output of a \<open>flatten\<close> call that returned
  reproduces that output.
\<close>

theorem flatten_idempotent:
  fixes ns out :: "'c NodeElement list" and g :: "('c, 't) GraphElement list"
  shows "flatten (map Node ns :: ('c, 't) GraphElement list) = Some (Inr ns)
   \<and> (flatten g = Some (Inr out)
        \<longrightarrow> flatten (map Node out :: ('c, 't) GraphElement list) = Some (Inr out))"
proof -
  have "flatten (map Node es :: ('c, 't) GraphElement list) = Some (Inr es)" for es
    using flatten_no_group [of "map Node es :: ('c, 't) GraphElement list"]
    by (simp add: list_all_iff nodes_of_map_Node del: flatten.simps)
  then show ?thesis by (simp del: flatten.simps)
qed

text \<open>
  Flattening the flat output of Scenario B again changes nothing.
\<close>

theorem flatten_idempotent_witness:
  "flatten scenario_graph = Some (Inr scenario_flat)
   \<and> flatten (map Node scenario_flat :: (int, unit) GraphElement list) = Some (Inr scenario_flat)"
  using flatten_idempotent [of scenario_flat scenario_graph scenario_flat] flatten_scenario_graph
  by simp

subsection \<open>The frame of flatten\<close>

lemma same_but_incoming_refl: "same_but_incoming n n"
  by (simp add: same_but_incoming_def)

lemma same_but_incoming_trans:
  "same_but_incoming a b \<Longrightarrow> same_but_incoming b c \<Longrightarrow> same_but_incoming a c"
  by (simp add: same_but_incoming_def)

lemma same_but_incoming_redirect: "same_but_incoming n (redirect_node r n)"
  by (simp add: same_but_incoming_def redirect_node_def comp_def case_prod_unfold)

lemma list_all2_same_refl: "list_all2 same_but_incoming es es"
  by (simp add: list_all2_refl same_but_incoming_refl)

lemma list_all2_same_trans:
  "list_all2 same_but_incoming as bs \<Longrightarrow> list_all2 same_but_incoming bs cs \<Longrightarrow>
   list_all2 same_but_incoming as cs"
  by (rule list_all2_trans [of same_but_incoming same_but_incoming same_but_incoming])
     (auto intro: same_but_incoming_trans)

lemma list_all2_same_rounds: "list_all2 same_but_incoming es ((map (redirect_node r) ^^ k) es)"
proof (induction k)
  case 0
  show ?case by (simp add: list_all2_same_refl)
next
  case (Suc k)
  have "list_all2 same_but_incoming ((map (redirect_node r) ^^ k) es)
          (map (redirect_node r) ((map (redirect_node r) ^^ k) es))"
    by (simp add: list_all2_map2 list_all2_refl same_but_incoming_redirect)
  with Suc show ?case by (auto intro: list_all2_same_trans)
qed

lemma rewrite_loop_same:
  "rewrite_loop r es = Some out \<Longrightarrow> list_all2 same_but_incoming es out"
  using rewrite_loop_Some [where r = r and es = es and out = out]
    list_all2_same_rounds [where es = es and r = r] by auto

lemma flatten_frame:
  "flatten g = Some (Inr out) \<longrightarrow> list_all2 same_but_incoming (nodes_of g) out"
  "flatten_elements g acc r = Some (Inr (acc', r')) \<longrightarrow>
     (\<exists>new. acc' = acc @ new \<and> list_all2 same_but_incoming (nodes_of g) new)"
proof (induction g and g acc r arbitrary: out and acc' r' rule: flatten_flatten_elements.induct)
  case (1 g)
  show ?case
  proof
    assume f: "flatten g = Some (Inr out)"
    then obtain fl rd where fe: "flatten_elements g [] Map.empty = Some (Inr (fl, rd))"
      and loop: "rewrite_loop rd fl = Some out"
      by (auto split: option.splits sum.splits)
    from 1 [of fl rd] fe have "list_all2 same_but_incoming (nodes_of g) fl" by simp
    with rewrite_loop_same [OF loop] show "list_all2 same_but_incoming (nodes_of g) out"
      by (auto intro: list_all2_same_trans)
  qed
next
  case (2 flattened redirects)
  then show ?case by simp
next
  case (3 n rest flattened redirects)
  show ?case
  proof
    assume "flatten_elements (Node n # rest) flattened redirects = Some (Inr (acc', r'))"
    then have "flatten_elements rest (flattened @ [n]) redirects = Some (Inr (acc', r'))" by simp
    with 3 obtain new where "acc' = (flattened @ [n]) @ new"
      "list_all2 same_but_incoming (nodes_of rest) new" by blast
    then show "\<exists>new. acc' = flattened @ new
        \<and> list_all2 same_but_incoming (nodes_of (Node n # rest)) new"
      by (intro exI [of _ "n # new"]) (simp add: same_but_incoming_refl)
  qed
next
  case (4 element sub rest flattened redirects)
  show ?case
  proof
    assume a: "flatten_elements (Group element sub # rest) flattened redirects = Some (Inr (acc', r'))"
    then obtain groupIn groupOut where io: "find_group_input sub = Some groupIn"
      "find_group_output sub = Some groupOut"
      by (auto split: option.splits)
    let ?r1 = "set_input_redirects (elementId groupIn) (incoming element)
                 (GroupInputElement.exports groupIn) redirects"
    let ?r2 = "set_output_redirects (elementId element) (GroupOutputElement.exports groupOut) ?r1"
    from a io obtain inner where inner: "flatten sub = Some (Inr inner)"
      and rest: "flatten_elements rest (flattened @ inner) ?r2 = Some (Inr (acc', r'))"
      by (auto simp: Let_def split: option.splits sum.splits)
    from "4.IH"(1) [OF _ io(1) io(2) refl refl, of inner] inner
    have s1: "list_all2 same_but_incoming (nodes_of sub) inner" by simp
    from "4.IH"(2) [OF _ io(1) io(2) refl refl inner refl, of acc' r'] rest
    obtain new where new: "acc' = (flattened @ inner) @ new"
      "list_all2 same_but_incoming (nodes_of rest) new" by auto
    from s1 new(2) have "list_all2 same_but_incoming (nodes_of (Group element sub # rest)) (inner @ new)"
      by (simp add: list_all2_appendI)
    with new(1) show "\<exists>new. acc' = flattened @ new
        \<and> list_all2 same_but_incoming (nodes_of (Group element sub # rest)) new"
      by (intro exI [of _ "inner @ new"]) simp
  qed
next
  case (5 f rest flattened redirects)
  then show ?case by simp
next
  case (6 gi rest flattened redirects)
  then show ?case by simp
next
  case (7 go rest flattened redirects)
  then show ?case by simp
qed

text \<open>
  Claim C9. When \<open>flatten\<close> returns, its output lists the NodeElements of the graph and of
  its nested subgraphs, in the order of collection; each agrees with its original on
  \<open>elementId\<close>, \<open>typeId\<close>, \<open>config\<close>, \<open>label\<close>, \<open>x\<close>, \<open>y\<close> and \<open>width\<close>, and its \<open>incoming\<close> has
  the same socket keys.
\<close>

theorem flatten_only_rewrites_incoming:
  assumes "flatten g = Some (Inr out)"
  shows "list_all2 same_but_incoming (nodes_of g) out"
  using flatten_frame(1) [of g out] assms by simp

text \<open>
  Scenario B: the output holds \<open>P\<close> and \<open>N\<close>, and only the wiring of \<open>N\<close> differs.
\<close>

theorem flatten_only_rewrites_incoming_witness:
  "flatten scenario_graph = Some (Inr scenario_flat)
   \<and> nodes_of scenario_graph = [node_P, node_N]
   \<and> list_all2 same_but_incoming [node_P, node_N] scenario_flat"
proof -
  have n: "nodes_of scenario_graph = [node_P, node_N]"
    by (simp add: scenario_graph_def through_sub_def)
  from flatten_only_rewrites_incoming [OF flatten_scenario_graph] n flatten_scenario_graph
  show ?thesis by simp
qed

subsection \<open>A group wired straight through\<close>

lemma map_of_redirect_node:
  "map_of (incoming (redirect_node r e)) s = map_option (redirect r) (map_of (incoming e) s)"
  by (simp add: redirect_node_def map_of_map)

text \<open>
  The keys of the redirect table are the strings \<open>`${elementId}::${socket}`\<close>. Two keys
  built from ids without a colon are equal only for equal ids and equal socket names.
\<close>

lemma redirect_key_inject:
  assumes "CHR '':'' \<notin> set a" and "CHR '':'' \<notin> set b"
  shows "redirect_key a s = redirect_key b t \<longleftrightarrow> a = b \<and> s = t"
  using assms
proof (induction a arbitrary: b)
  case Nil
  then show ?case by (cases b) (auto simp: redirect_key_def)
next
  case (Cons c a)
  show ?case
  proof (cases b)
    case Nil
    with Cons.prems show ?thesis by (auto simp: redirect_key_def)
  next
    case (Cons d b')
    with Cons.prems Cons.IH [of b'] show ?thesis by (auto simp: redirect_key_def)
  qed
qed

lemma pass_through_twice:
  assumes "kin \<noteq> kout" and "key_of tgt = kin" and "key_of p \<noteq> kin" and "key_of p \<noteq> kout"
  shows "pass_through_redirects kin kout p tgt
           (key_of (redirect (pass_through_redirects kin kout p tgt)
                     (redirect (pass_through_redirects kin kout p tgt) v))) = None"
  using assms by (auto simp: pass_through_redirects_def redirect_def)

lemma pass_through_settled:
  assumes "kin \<noteq> kout" and "key_of tgt = kin" and "key_of p \<noteq> kin" and "key_of p \<noteq> kout"
  shows "list_all (\<lambda>e. settled (pass_through_redirects kin kout p tgt) (incoming e))
           ((map (redirect_node (pass_through_redirects kin kout p tgt)) ^^ 2) es)"
  using pass_through_twice [OF assms]
  by (simp add: numeral_2_eq_2 list_all_iff settled_def redirect_node_def case_prod_unfold)

text \<open>
  What \<open>flatten\<close> does with a single group wired straight through. Let a graph hold one
  group, without a nested group, whose group input has the single export \<open>ei\<close> and whose
  group output has the single export \<open>eo\<close> with the target \<open>(groupIn.elementId, ei.id)\<close>, and
  let \<open>group.incoming[ei.id]\<close> be \<open>p\<close>. If the redirect keys of the group's output, of the
  group input's export and of \<open>p\<close> are pairwise different, then \<open>flatten\<close> returns the
  NodeElements of the graph, and every node outside the group that was wired to the
  group's output at a socket \<open>s\<close> is in the output with \<open>s\<close> wired to \<open>p\<close> and its other
  fields unchanged.
\<close>

lemma pass_through_group:
  fixes pre post sub :: "('c, 't) GraphElement list"
  assumes only_group: "list_all (\<lambda>e. \<not> is_Group e) (pre @ post @ sub)"
    and markers: "find_group_input sub = Some gi" "find_group_output sub = Some go"
    and exps: "GroupInputElement.exports gi = [ei]" "GroupOutputElement.exports go = [eo]"
    and wired_through: "target eo = \<lparr>Incoming.elementId = elementId gi, socket = exportId ei\<rparr>"
    and producer: "read_incoming (incoming G) (exportId ei) = Some p"
    and keys: "distinct [redirect_key (elementId G) (exportId eo),
                         redirect_key (elementId gi) (exportId ei), key_of p]"
    and consumer: "Node n \<in> set (pre @ post)"
      "map_of (incoming n) s = Some (Ref \<lparr>Incoming.elementId = elementId G, socket = exportId eo\<rparr>)"
  shows "\<exists>out n'. flatten (pre @ Group G sub # post) = Some (Inr out)
           \<and> list_all2 same_but_incoming (nodes_of (pre @ Group G sub # post)) out
           \<and> n' \<in> set out \<and> same_but_incoming n n' \<and> map_of (incoming n') s = Some p"
proof -
  let ?g = "pre @ Group G sub # post"
  let ?kin = "redirect_key (elementId gi) (exportId ei)"
  let ?kout = "redirect_key (elementId G) (exportId eo)"
  let ?T = "pass_through_redirects ?kin ?kout p (Ref (target eo))"
  let ?ns = "nodes_of ?g"
  let ?out = "(map (redirect_node ?T) ^^ 2) ?ns"
  from only_group have ng: "list_all (\<lambda>e. \<not> is_Group e) pre" "list_all (\<lambda>e. \<not> is_Group e) post"
    "list_all (\<lambda>e. \<not> is_Group e) sub" by simp_all
  have table: "set_output_redirects (elementId G) (GroupOutputElement.exports go)
                 (set_input_redirects (elementId gi) (incoming G) (GroupInputElement.exports gi) Map.empty)
               = ?T"
    by (simp add: set_output_redirects_def set_input_redirects_def exps producer
        pass_through_redirects_def)
  have sub: "flatten sub = Some (Inr (nodes_of sub))" by (rule flatten_no_group [OF ng(3)])
  have "flatten_elements ?g [] Map.empty = flatten_elements (Group G sub # post) (nodes_of pre) Map.empty"
    using flatten_elements_append_no_group [OF ng(1), of "Group G sub # post" "[]" Map.empty]
    by simp
  also have "\<dots> = flatten_elements post (nodes_of pre @ nodes_of sub) ?T"
    using sub table by (simp add: markers del: flatten.simps)
  also have "\<dots> = Some (Inr (?ns, ?T))"
    by (simp add: flatten_elements_no_group [OF ng(2)] nodes_of_append)
  finally have collected: "flatten_elements ?g [] Map.empty = Some (Inr (?ns, ?T))" .
  have k: "?kin \<noteq> ?kout" "key_of (Ref (target eo)) = ?kin" "key_of p \<noteq> ?kin" "key_of p \<noteq> ?kout"
    using keys by (auto simp: wired_through key_of_def interpolate_def)
  from rewrite_loop_rounds [OF pass_through_settled [OF k]]
  have "rewrite_loop ?T ?ns = Some ?out" .
  with collected have fl: "flatten ?g = Some (Inr ?out)" by simp
  have frame: "list_all2 same_but_incoming ?ns ?out" by (rule list_all2_same_rounds)
  let ?n' = "redirect_node ?T (redirect_node ?T n)"
  from consumer(1) have "n \<in> set ?ns"
    using Node_in_nodes_of [of n pre] Node_in_nodes_of [of n post]
    by (auto simp: nodes_of_append)
  then have mem: "?n' \<in> set ?out" by (simp add: numeral_2_eq_2)
  have same: "same_but_incoming n ?n'"
    by (rule same_but_incoming_trans [OF same_but_incoming_redirect same_but_incoming_redirect])
  have r1: "redirect ?T (Ref \<lparr>Incoming.elementId = elementId G, socket = exportId eo\<rparr>) = Ref (target eo)"
    by (simp add: redirect_def pass_through_redirects_def key_of_def interpolate_def)
  have r2: "redirect ?T (Ref (target eo)) = p"
    using k(1,2) by (simp add: redirect_def pass_through_redirects_def)
  have wired: "map_of (incoming ?n') s = Some p"
    by (simp add: map_of_redirect_node consumer(2) r1 r2)
  with fl frame mem same show ?thesis by blast
qed

text \<open>
  Scenario B of the spec: after flattening, \<open>N\<close> reads the output of \<open>P\<close>, and the flat
  graph holds the nodes \<open>P\<close> and \<open>N\<close> only.
\<close>

lemma scenario_B:
  "flatten scenario_graph
     = Some (Inr [node_P, node_N\<lparr>incoming := [(''a'', socket_of ''P'' ''output'')]\<rparr>])"
  using flatten_scenario_graph by (simp add: scenario_flat_def del: flatten.simps)

text \<open>
  \<open>element.incoming[e.id]\<close> for an export named like an inherited member and wired to
  nothing: the inherited function becomes the redirect target, and the loop stores it in
  the node that reads the export.
\<close>

lemma inherited_export_becomes_redirect:
  "flatten inherited_export_graph
     = Some (Inr [node_Q\<lparr>incoming := [(''a'', InheritedMember ''toString'')]\<rparr>])"
  by (simp add: flatten_defs group_defs node_Q_def inherited_export_graph_def)

text \<open>
  Claim C4, at a failing input. \<open>twin_graph\<close> holds the group \<open>G\<close>, which exposes the input
  \<open>i\<close> and the output \<open>o\<close> wired straight through and is fed by the producer \<open>P\<close>, and a
  second group with the same subgraph (so with the same marker ids), fed by \<open>P2\<close>. Both
  groups register the key \<open>gin::i\<close> in the one table of the call and the second entry
  replaces the first, so the consumer \<open>N\<close> of the output of \<open>G\<close> ends up wired to \<open>P2\<close>, not
  to the producer \<open>P\<close> of \<open>G\<close>.
\<close>

theorem twin_group_wrong_producer:
  "map_of (incoming (group_fields ''G'' [(''i'', socket_of ''P'' ''output'')])) ''i''
     = Some (socket_of ''P'' ''output'')
   \<and> map_of (incoming node_N) ''a'' = Some (socket_of ''G'' ''o'')
   \<and> flatten twin_graph
       = Some (Inr [node_P, node_P2, node_N\<lparr>incoming := [(''a'', socket_of ''P2'' ''output'')]\<rparr>])"
  by (simp add: flatten_defs group_defs)

subsection \<open>Nested groups\<close>

text \<open>
  Claim C3, at a failing input. In \<open>nested_graph\<close> the reference of \<open>M\<close> to the output \<open>o1\<close>
  of \<open>G1\<close> resolves to \<open>o2\<close> of the nested group \<open>G2\<close> and from there to the node \<open>P\<close>. The
  redirect for \<open>G2::o2\<close> is registered in the table of the recursive call \<open>flatten(G1)\<close>
  only, so the loop of the outer call stops at \<open>(G2, o2)\<close>: the output wires \<open>M\<close> to \<open>G2\<close>,
  which is no element of the flat graph.
\<close>

theorem nested_output_not_resolved:
  "flatten nested_graph
     = Some (Inr [node_P, node_M\<lparr>incoming := [(''a'', socket_of ''G2'' ''o2'')]\<rparr>])
   \<and> find_element [node_P, node_M\<lparr>incoming := [(''a'', socket_of ''G2'' ''o2'')]\<rparr>] ''G2'' = None"
  by (simp add: flatten_defs group_defs find_element_def)

end
